theory Spec2Isabelle
  imports Complex_Main "HOL-Library.Multiset" "HOL-Library.Log_Nat"
begin

section \<open>The workflow controller of \<open>src/App.tsx\<close>\<close>

text \<open>
  The component \<open>App\<close> owns five pieces of React state (\<open>file\<close>, \<open>dialogOpen\<close>,
  \<open>selectedOptions\<close>, \<open>step\<close>, \<open>progress\<close>), four event handlers and one effect keyed
  on \<open>step\<close>. The effect starts an interval timer whose callback advances \<open>progress\<close> and,
  at 100, clears the interval and schedules a one-shot \<open>setTimeout\<close> that sets
  \<open>step\<close> to \<open>'summary'\<close>.

  The model passes the state explicitly (the cell \<open>file\<close> is named \<open>selectedFile\<close>
  here, \<open>file\<close> being a keyword of the prover). Besides the five \<open>useState\<close> cells the record
  holds what the browser's timer queue holds for this component: whether the interval
  created by the effect is live (\<open>timer\<close>) and how many one-shot timeouts are scheduled
  and have not fired yet (\<open>timeouts\<close>).

  \<open>progress\<close> is a JavaScript number, an IEEE 754 binary64 value. It is modelled as the
  real number the double denotes; each arithmetic operation of the source is the exact
  operation followed by \<open>double_round\<close>, rounding to the nearest double, ties to the even
  significand. The value returned by \<open>Math.random()\<close> is a parameter of the tick.
\<close>

subsection \<open>Double-precision rounding\<close>

text \<open>Rounding a real to the nearest integer, a tie going to the even neighbour.\<close>

definition round_even :: "real \<Rightarrow> int" where
  "round_even x =
   (let f = \<lfloor>x\<rfloor>; d = x - of_int f
    in if d < 1/2 then f else if 1/2 < d then f + 1 else if even f then f else f + 1)"

text \<open>A finite double is an integer multiple of \<open>2 ^ -1074\<close> whose significand has at most
  53 bits. For \<open>y \<ge> 0\<close> counted in that unit, \<open>round_53 y\<close> keeps the 53 leading bits:
  with \<open>b\<close> the bit length of the integer part, the last \<open>b - 53\<close> bits are rounded away
  (none for a subnormal magnitude, where \<open>b \<le> 53\<close>).\<close>

definition round_53 :: "real \<Rightarrow> int" where
  "round_53 y = (let k = nat (bitlen \<lfloor>y\<rfloor> - 53) in round_even (y / 2 ^ k) * 2 ^ k)"

text \<open>The double nearest to \<open>x\<close>. The exponent is not bounded above: the numbers of this
  program stay below 128, and \<open>Math.min(100, _)\<close> gives 100 for an infinity as for any
  large number.\<close>

definition double_round :: "real \<Rightarrow> real" where
  "double_round x = sgn x * (of_int (round_53 (\<bar>x\<bar> * 2 ^ 1074)) / 2 ^ 1074)"

definition is_double :: "real \<Rightarrow> bool" where
  "is_double x = (double_round x = x)"

subsection \<open>Data\<close>

datatype WorkflowStep = idle | processing | summary

text \<open>A \<open>File\<close> of the browser: its name, its size in bytes and its media type. The
  handlers never look inside.\<close>

datatype File = File (file_name: string) (file_size: nat) (file_type: string)

record AnalysisOption =
  option_id :: string
  option_name :: string
  description :: string
  highlight :: "string option"

definition analysisOptions :: "AnalysisOption list" where
  "analysisOptions =
   [\<lparr>option_id = ''mobsf'', option_name = ''MobSF'',
     description = ''Comprehensive static + dynamic security analysis designed for APKs.'',
     highlight = Some ''Required''\<rparr>,
    \<lparr>option_id = ''mitmproxy'', option_name = ''MITMProxy'',
     description = ''Inspect network traffic to discover unsafe communication patterns.'',
     highlight = None\<rparr>,
    \<lparr>option_id = ''androguard'', option_name = ''AndroGuard'',
     description = ''Deep dive into bytecode, certificates, and manifest hygiene.'',
     highlight = None\<rparr>,
    \<lparr>option_id = ''frida'', option_name = ''Frida'',
     description = ''Runtime instrumentation & hook-based inspection for dynamic behavior.'',
     highlight = None\<rparr>,
    \<lparr>option_id = ''drozer'', option_name = ''Drozer'',
     description = ''Advanced exploitation probes for research-grade assessments.'',
     highlight = None\<rparr>]"

text \<open>The constant \<open>summaryTemplate\<close>. The separator in \<open>generatedAt\<close> is U+00B7, one
  UTF-16 code unit; \<open>severityScore\<close> is the number literal 7.4.\<close>

record vulnerability =
  category :: string
  name :: string
  severity :: string
  scanner :: string

record remediation_item =
  title :: string
  action :: string

record report_metrics =
  duration :: string
  severityScore :: real
  coverage :: string
  riskLevel :: string

record summary_report =
  generatedAt :: string
  keyFindings :: "string list"
  vulnerabilities :: "vulnerability list"
  remediation :: "remediation_item list"
  metrics :: report_metrics

definition summaryTemplate :: summary_report where
  "summaryTemplate =
   \<lparr>generatedAt = ''October 21, 2025 '' @ [CHR 0xB7] @ '' 10:45 AM'',
    keyFindings =
      [''Improper thread synchronization identified in the payment service.'',
       ''Sensitive analytics payload exposed via unsecured WebSocket.'',
       ''Excessive permissions in manifest allow privilege escalation.''],
    vulnerabilities =
      [\<lparr>category = ''Race Condition'',
        name = ''Inconsistent balance checks in payment module'',
        severity = ''critical'', scanner = ''MobSF''\<rparr>,
       \<lparr>category = ''Improper Thread Synchronization'',
        name = ''Analytics service spawns unbounded worker threads'',
        severity = ''high'', scanner = ''Frida''\<rparr>,
       \<lparr>category = ''Runtime Exploit Surface'',
        name = ''Broadcast receiver exported without auth'',
        severity = ''medium'', scanner = ''Drozer''\<rparr>],
    remediation =
      [\<lparr>title = ''Race Condition Mitigation'',
        action = ''Introduce optimistic locking combined with server-side verification before commits.''\<rparr>,
       \<lparr>title = ''Secure Communications'',
        action = ''Route analytics payloads through mTLS tunnel and rotate certificates quarterly.''\<rparr>,
       \<lparr>title = ''Hardening Exported Components'',
        action = ''Enforce signature-level permissions for exposed receivers and services.''\<rparr>],
    metrics = \<lparr>duration = ''08m 12s'', severityScore = 7.4, coverage = ''92%'',
               riskLevel = ''High''\<rparr>\<rparr>"

record state =
  selectedFile :: "File option"
  dialogOpen :: bool
  selectedOptions :: "string list"
  step :: WorkflowStep
  progress :: real
  timer :: bool
  timeouts :: nat

text \<open>The values given to \<open>useState\<close>; nothing is scheduled when the component mounts
  (the effect returns at once, \<open>step\<close> being \<open>'idle'\<close>).\<close>

definition initial_state :: state where
  "initial_state =
   \<lparr>selectedFile = None, dialogOpen = False, selectedOptions = [''mobsf''], step = idle,
    progress = 0, timer = False, timeouts = 0\<rparr>"

subsection \<open>Derived value and event handlers\<close>

text \<open>\<open>Boolean(file && selectedOptions.length)\<close>: \<open>null\<close> and the length 0 are falsy.\<close>

definition analysisReady :: "state \<Rightarrow> bool" where
  "analysisReady s = (selectedFile s \<noteq> None \<and> length (selectedOptions s) \<noteq> 0)"

text \<open>\<open>event.target.files?.[0]\<close> is a \<open>File\<close> or \<open>undefined\<close>.\<close>

definition handleFileChange :: "File option \<Rightarrow> state \<Rightarrow> state" where
  "handleFileChange nextFile s =
   (case nextFile of None \<Rightarrow> s | Some f \<Rightarrow> s\<lparr>selectedFile := Some f\<rparr>)"

definition toggleOption :: "string \<Rightarrow> state \<Rightarrow> state" where
  "toggleOption optionId s =
   (if optionId = ''mobsf'' then s
    else s\<lparr>selectedOptions :=
      (let prev = selectedOptions s
       in if optionId \<in> set prev then filter (\<lambda>i. i \<noteq> optionId) prev
          else prev @ [optionId])\<rparr>)"

definition startAnalysis :: "state \<Rightarrow> state" where
  "startAnalysis s =
   (if \<not> analysisReady s then s else s\<lparr>dialogOpen := False, step := processing\<rparr>)"

definition resetWorkflow :: "state \<Rightarrow> state" where
  "resetWorkflow s = s\<lparr>progress := 0, step := idle\<rparr>"

subsection \<open>The effect on \<open>step\<close> and the two timer callbacks\<close>

text \<open>The function the effect returns: \<open>() => clearInterval(timer)\<close>.\<close>

definition effect_cleanup :: "state \<Rightarrow> state" where
  "effect_cleanup s = s\<lparr>timer := False\<rparr>"

text \<open>The effect's body: return unless \<open>step\<close> is \<open>'processing'\<close>, else \<open>setProgress(0)\<close>
  and \<open>setInterval\<close>.\<close>

definition effect_body :: "state \<Rightarrow> state" where
  "effect_body s =
   (if step s \<noteq> processing then s else s\<lparr>progress := 0, timer := True\<rparr>)"

text \<open>React re-runs an effect with dependency list \<open>[step]\<close> after a render in which
  \<open>step\<close> differs from the previous render: first the cleanup the last run returned
  (there is one only if that run got past the early return), then the body.\<close>

definition commit :: "WorkflowStep \<Rightarrow> state \<Rightarrow> state" where
  "commit old s =
   (if step s = old then s
    else effect_body (if old = processing then effect_cleanup s else s))"

text \<open>The interval callback, with \<open>r\<close> the value of \<open>Math.random()\<close>:
  \<open>Math.min(100, prev + Math.random() * 18)\<close> is a double multiplication, then a double
  addition, then an exact minimum. A cleared interval does not call back.\<close>

definition tick :: "real \<Rightarrow> state \<Rightarrow> state" where
  "tick r s =
   (if \<not> timer s then s
    else let next = min 100 (double_round (progress s + double_round (r * 18)))
         in if next \<ge> 100
            then s\<lparr>progress := next, timer := False, timeouts := Suc (timeouts s)\<rparr>
            else s\<lparr>progress := next\<rparr>)"

text \<open>The one-shot callback \<open>() => setStep('summary')\<close>; it fires only if one is scheduled.
  Nothing in the component ever calls \<open>clearTimeout\<close>.\<close>

definition timeout :: "state \<Rightarrow> state" where
  "timeout s =
   (if timeouts s = 0 then s else s\<lparr>step := summary, timeouts := timeouts s - 1\<rparr>)"

subsection \<open>Events\<close>

datatype event =
    FileChange "File option"
  | SetDialogOpen bool
  | Toggle string
  | Start
  | Reset
  | Tick real
  | Timeout

fun handler :: "event \<Rightarrow> state \<Rightarrow> state" where
  "handler (FileChange nf) s = handleFileChange nf s"
| "handler (SetDialogOpen b) s = s\<lparr>dialogOpen := b\<rparr>"
| "handler (Toggle i) s = toggleOption i s"
| "handler Start s = startAnalysis s"
| "handler Reset s = resetWorkflow s"
| "handler (Tick r) s = tick r s"
| "handler Timeout s = timeout s"

text \<open>One event: the handler's state updates, then the render and its effect.\<close>

definition fire :: "event \<Rightarrow> state \<Rightarrow> state" where
  "fire e s = commit (step s) (handler e s)"

definition run :: "event list \<Rightarrow> state \<Rightarrow> state" where
  "run es s = foldl (\<lambda>s e. fire e s) s es"

text \<open>\<open>Math.random()\<close> returns a double in \<open>[0, 1)\<close>; the range is all the properties
  below need of it.\<close>

fun valid_event :: "event \<Rightarrow> bool" where
  "valid_event (Tick r) = (0 \<le> r \<and> r < 1)"
| "valid_event _ = True"

text \<open>The progress values seen along a series of ticks, the current one first.\<close>

fun tick_trace :: "real list \<Rightarrow> state \<Rightarrow> real list" where
  "tick_trace [] s = [progress s]"
| "tick_trace (r # rs) s = progress s # tick_trace rs (fire (Tick r) s)"

subsection \<open>What the page shows of the report\<close>

text \<open>\<open>useMemo(() => summaryTemplate, [])\<close>: computed once, from no state.\<close>

definition summaryData :: summary_report where
  "summaryData = summaryTemplate"

text \<open>The report cards are rendered from \<open>summaryData\<close> when \<open>step\<close> is \<open>'summary'\<close>; in
  the other steps a placeholder stands in their place.\<close>

definition summary_section :: "state \<Rightarrow> summary_report option" where
  "summary_section s = (if step s \<noteq> summary then None else Some summaryData)"

subsection \<open>Invariant and scenarios\<close>

text \<open>The progress stays a percentage and a double, and the interval is live only while
  processing.\<close>

definition progress_ok :: "state \<Rightarrow> bool" where
  "progress_ok s =
   (0 \<le> progress s \<and> progress s \<le> 100 \<and> is_double (progress s)
    \<and> (timer s \<longrightarrow> step s = processing))"

text \<open>Choose a file and run the analysis with the default scanners.\<close>

definition upload_and_start :: "event list" where
  "upload_and_start = [FileChange (Some (File ''app.apk'' 4096 ''application/vnd.android.package-archive'')), Start]"

text \<open>The same, followed by six ticks with the random value 15/16, 16.875 points each
  (every value on the way is a double, so no operation rounds): the sixth reaches 100,
  clears the interval and schedules the move to the summary.\<close>

definition completed_run :: "event list" where
  "completed_run =
   [FileChange (Some (File ''app.apk'' 4096 ''application/vnd.android.package-archive'')), Start,
    Tick (15/16), Tick (15/16), Tick (15/16), Tick (15/16), Tick (15/16), Tick (15/16)]"

text \<open>Seven ticks with the random value 3/4, 13.5 points each: the progress is 94.5 and
  the interval is still live.\<close>

definition almost_done_run :: "event list" where
  "almost_done_run =
   [FileChange (Some (File ''app.apk'' 4096 ''application/vnd.android.package-archive'')), Start,
    Tick (3/4), Tick (3/4), Tick (3/4), Tick (3/4), Tick (3/4), Tick (3/4), Tick (3/4)]"

text \<open>Another file, one more scanner, larger steps, and the delayed callback at the end.\<close>

definition other_run :: "event list" where
  "other_run =
   [FileChange (Some (File ''bank.apk'' 123456 ''application/vnd.android.package-archive'')), SetDialogOpen True, Toggle ''frida'', Start,
    Tick (1/2), Tick (1/2), Tick (1/2), Tick (1/2), Tick (1/2), Tick (1/2),
    Tick (1/2), Tick (1/2), Tick (1/2), Tick (1/2), Tick (1/2), Tick (1/2), Timeout]"

text \<open>A random value whose product with 18 falls halfway between two doubles.\<close>

definition tie_random :: real where
  "tie_random = 1376099886140983 / 2 ^ 52"

section \<open>Properties\<close>

subsection \<open>Rounding to a double\<close>

lemma round_even_of_int [simp]: "round_even (of_int n) = n"
  by (simp add: round_even_def)

lemma round_even_0 [simp]: "round_even 0 = 0"
  by (simp add: round_even_def)

lemma round_53_eq:
  "round_53 y = round_even (y / 2 ^ nat (bitlen \<lfloor>y\<rfloor> - 53)) * 2 ^ nat (bitlen \<lfloor>y\<rfloor> - 53)"
  by (simp add: round_53_def Let_def)

lemma scale_dyadic:
  "j \<le> n \<Longrightarrow> (of_int m :: real) / 2 ^ j * 2 ^ n = of_int (m * 2 ^ (n - j))"
proof -
  assume "j \<le> n"
  then obtain d where "n = j + d" using le_Suc_ex by blast
  then show ?thesis by (simp add: power_add)
qed

lemma unscale_dyadic:
  "j \<le> n \<Longrightarrow> (of_int (m * 2 ^ (n - j)) :: real) / 2 ^ n = of_int m / 2 ^ j"
proof -
  assume "j \<le> n"
  then obtain d where "n = j + d" using le_Suc_ex by blast
  then show ?thesis by (simp add: power_add)
qed

lemma round_even_floor: "\<lfloor>x\<rfloor> \<le> round_even x \<and> round_even x \<le> \<lfloor>x\<rfloor> + 1"
  by (simp add: round_even_def Let_def)

lemma round_even_mono: "x \<le> y \<Longrightarrow> round_even x \<le> round_even y"
proof -
  assume le: "x \<le> y"
  then have "\<lfloor>x\<rfloor> \<le> \<lfloor>y\<rfloor>" by (rule floor_mono)
  then consider "\<lfloor>x\<rfloor> = \<lfloor>y\<rfloor>" | "\<lfloor>x\<rfloor> + 1 \<le> \<lfloor>y\<rfloor>" by linarith
  then show ?thesis
  proof cases
    case 1
    with le show ?thesis by (auto simp add: round_even_def Let_def)
  next
    case 2
    with round_even_floor [of x] round_even_floor [of y] show ?thesis by linarith
  qed
qed

lemma round_even_ge: "of_int n \<le> x \<Longrightarrow> n \<le> round_even x"
  using round_even_mono [of "of_int n" x] by simp

lemma round_even_le: "x \<le> of_int n \<Longrightarrow> round_even x \<le> n"
  using round_even_mono [of x "of_int n"] by simp

lemma bitlen_mono: "a \<le> b \<Longrightarrow> bitlen a \<le> bitlen b"
  by (simp add: bitlen_def floorlog_mono)

lemma less_pow_bitlen: "0 \<le> (y::real) \<Longrightarrow> y < 2 ^ nat (bitlen \<lfloor>y\<rfloor>)"
proof -
  assume "0 \<le> y"
  then have f: "0 \<le> \<lfloor>y\<rfloor>" by simp
  have "\<lfloor>y\<rfloor> < 2 ^ nat (bitlen \<lfloor>y\<rfloor>)"
  proof (cases "\<lfloor>y\<rfloor> = 0")
    case True
    then show ?thesis by simp
  next
    case False
    with f have "0 < \<lfloor>y\<rfloor>" by linarith
    then show ?thesis using bitlen_bounds by blast
  qed
  then have "\<lfloor>y\<rfloor> + 1 \<le> 2 ^ nat (bitlen \<lfloor>y\<rfloor>)" by simp
  then have "(of_int (\<lfloor>y\<rfloor> + 1) :: real) \<le> of_int (2 ^ nat (bitlen \<lfloor>y\<rfloor>))"
    by (rule of_int_le_iff [THEN iffD2])
  then have b: "of_int \<lfloor>y\<rfloor> + 1 \<le> (2::real) ^ nat (bitlen \<lfloor>y\<rfloor>)" by simp
  have "y < of_int \<lfloor>y\<rfloor> + 1" by (rule real_of_int_floor_add_one_gt)
  then show ?thesis using b by (rule less_le_trans)
qed

lemma round_53_upper:
  assumes "0 \<le> y"
  shows "round_53 y \<le> 2 ^ nat (bitlen \<lfloor>y\<rfloor>)"
proof -
  define p where "p = nat (bitlen \<lfloor>y\<rfloor>)"
  define k where "k = nat (bitlen \<lfloor>y\<rfloor> - 53)"
  have kp: "k \<le> p" by (simp add: k_def p_def)
  have "y < 2 ^ p" using less_pow_bitlen [OF assms] by (simp add: p_def)
  then have "y / 2 ^ k < 2 ^ p / 2 ^ k" by (simp add: divide_strict_right_mono)
  also have "(2::real) ^ p / 2 ^ k = 2 ^ (p - k)" using kp by (simp add: power_diff)
  finally have "y / 2 ^ k \<le> of_int (2 ^ (p - k))" by simp
  then have "round_even (y / 2 ^ k) \<le> 2 ^ (p - k)" by (rule round_even_le)
  then have "round_even (y / 2 ^ k) * 2 ^ k \<le> 2 ^ (p - k) * 2 ^ k" by simp
  also have "(2::int) ^ (p - k) * 2 ^ k = 2 ^ p" using kp by (simp flip: power_add)
  finally show ?thesis by (simp add: round_53_eq k_def p_def)
qed

lemma round_53_lower:
  assumes "0 < \<lfloor>y\<rfloor>"
  shows "2 ^ nat (bitlen \<lfloor>y\<rfloor> - 1) \<le> round_53 y"
proof -
  define q where "q = nat (bitlen \<lfloor>y\<rfloor> - 1)"
  define k where "k = nat (bitlen \<lfloor>y\<rfloor> - 53)"
  have kq: "k \<le> q" by (simp add: k_def q_def)
  have "2 ^ q \<le> \<lfloor>y\<rfloor>" using bitlen_bounds [OF assms] by (simp add: q_def)
  then have "(of_int (2 ^ q) :: real) \<le> of_int \<lfloor>y\<rfloor>" by (rule of_int_le_iff [THEN iffD2])
  then have "(2::real) ^ q \<le> y" by (simp add: order_trans [OF _ of_int_floor_le])
  then have "2 ^ q / 2 ^ k \<le> y / 2 ^ k" by (simp add: divide_right_mono)
  moreover have "(2::real) ^ q / 2 ^ k = 2 ^ (q - k)" using kq by (simp add: power_diff)
  ultimately have "of_int (2 ^ (q - k)) \<le> y / 2 ^ k" by simp
  then have "2 ^ (q - k) \<le> round_even (y / 2 ^ k)" by (rule round_even_ge)
  then have "2 ^ (q - k) * 2 ^ k \<le> round_even (y / 2 ^ k) * 2 ^ k" by simp
  moreover have "(2::int) ^ (q - k) * 2 ^ k = 2 ^ q" using kq by (simp flip: power_add)
  ultimately have "2 ^ q \<le> round_even (y / 2 ^ k) * 2 ^ k" by simp
  then show ?thesis unfolding round_53_eq k_def q_def .
qed

lemma round_53_mono:
  assumes "0 \<le> a" and "a \<le> b"
  shows "round_53 a \<le> round_53 b"
proof -
  have fl: "\<lfloor>a\<rfloor> \<le> \<lfloor>b\<rfloor>" using assms(2) by (rule floor_mono)
  then have bl: "bitlen \<lfloor>a\<rfloor> \<le> bitlen \<lfloor>b\<rfloor>" by (rule bitlen_mono)
  show ?thesis
  proof (cases "bitlen \<lfloor>a\<rfloor> = bitlen \<lfloor>b\<rfloor>")
    case True
    have "a / 2 ^ nat (bitlen \<lfloor>b\<rfloor> - 53) \<le> b / 2 ^ nat (bitlen \<lfloor>b\<rfloor> - 53)"
      using assms(2) by (simp add: divide_right_mono)
    then have "round_even (a / 2 ^ nat (bitlen \<lfloor>b\<rfloor> - 53))
        \<le> round_even (b / 2 ^ nat (bitlen \<lfloor>b\<rfloor> - 53))"
      by (rule round_even_mono)
    with True show ?thesis by (simp add: round_53_eq)
  next
    case False
    with bl have lt: "bitlen \<lfloor>a\<rfloor> < bitlen \<lfloor>b\<rfloor>" by simp
    have "0 \<le> bitlen \<lfloor>a\<rfloor>" by (rule bitlen_nonneg)
    with lt have "0 < bitlen \<lfloor>b\<rfloor>" by simp
    then have pos: "0 < \<lfloor>b\<rfloor>" using bitlen_eq_zero_iff [of "\<lfloor>b\<rfloor>"] by linarith
    have "round_53 a \<le> 2 ^ nat (bitlen \<lfloor>a\<rfloor>)" using assms(1) by (rule round_53_upper)
    also have "(2::int) ^ nat (bitlen \<lfloor>a\<rfloor>) \<le> 2 ^ nat (bitlen \<lfloor>b\<rfloor> - 1)"
      using lt by (intro power_increasing) simp_all
    also have "\<dots> \<le> round_53 b" using pos by (rule round_53_lower)
    finally show ?thesis .
  qed
qed

lemma round_53_nonneg: "0 \<le> y \<Longrightarrow> 0 \<le> round_53 y"
proof -
  assume "0 \<le> y"
  then have "0 \<le> y / 2 ^ nat (bitlen \<lfloor>y\<rfloor> - 53)" by simp
  then have "0 \<le> round_even (y / 2 ^ nat (bitlen \<lfloor>y\<rfloor> - 53))"
    using round_even_ge [of 0] by simp
  then show ?thesis by (simp add: round_53_eq)
qed

lemma round_53_exact:
  assumes "2 ^ nat (bitlen m - 53) dvd m"
  shows "round_53 (of_int m) = m"
proof -
  from assms obtain c where c: "m = 2 ^ nat (bitlen m - 53) * c" by (rule dvdE)
  have "(of_int m :: real) / 2 ^ nat (bitlen m - 53)
      = of_int (2 ^ nat (bitlen m - 53) * c) / 2 ^ nat (bitlen m - 53)"
    using c by simp
  also have "\<dots> = of_int c" by simp
  finally have "round_even (of_int m / 2 ^ nat (bitlen m - 53)) = c" by simp
  then have "round_53 (of_int m) = c * 2 ^ nat (bitlen m - 53)" by (simp add: round_53_eq)
  with c show ?thesis by (simp add: mult.commute)
qed

lemma round_53_idem:
  assumes "0 \<le> y"
  shows "round_53 (of_int (round_53 y)) = round_53 y"
proof (rule round_53_exact)
  define k where "k = nat (bitlen \<lfloor>y\<rfloor> - 53)"
  define n where "n = round_even (y / 2 ^ k)"
  have r: "round_53 y = n * 2 ^ k" by (simp add: round_53_eq k_def n_def)
  have n0: "0 \<le> n" using round_53_nonneg [OF assms] r
    by (simp add: zero_le_mult_iff)
  have up: "n * 2 ^ k \<le> 2 ^ nat (bitlen \<lfloor>y\<rfloor>)" using round_53_upper [OF assms] r by simp
  show "2 ^ nat (bitlen (round_53 y) - 53) dvd round_53 y"
  proof (cases "n = 0")
    case True
    then show ?thesis by (simp add: r)
  next
    case False
    with n0 have np: "0 < n" by simp
    then have bl: "bitlen (n * 2 ^ k) = bitlen n + int k" by simp
    have "n * 2 ^ k < 2 ^ nat (bitlen \<lfloor>y\<rfloor>) \<or> n * 2 ^ k = 2 ^ nat (bitlen \<lfloor>y\<rfloor>)"
      using up by linarith
    then show ?thesis
    proof
      assume lt: "n * 2 ^ k < 2 ^ nat (bitlen \<lfloor>y\<rfloor>)"
      then have "bitlen (n * 2 ^ k) \<le> bitlen \<lfloor>y\<rfloor>"
        using bitlen_le_iff_power [of "n * 2 ^ k" "bitlen \<lfloor>y\<rfloor>"] bitlen_nonneg [of "\<lfloor>y\<rfloor>"]
        by simp
      then have "nat (bitlen (n * 2 ^ k) - 53) \<le> k" by (simp add: k_def)
      then have "(2::int) ^ nat (bitlen (n * 2 ^ k) - 53) dvd 2 ^ k"
        by (rule le_imp_power_dvd)
      then show ?thesis unfolding r by (rule dvd_mult)
    next
      assume eq: "n * 2 ^ k = 2 ^ nat (bitlen \<lfloor>y\<rfloor>)"
      have "bitlen ((2::int) ^ nat (bitlen \<lfloor>y\<rfloor>)) = bitlen \<lfloor>y\<rfloor> + 1"
        using bitlen_pow2 [of 1 "nat (bitlen \<lfloor>y\<rfloor>)"] bitlen_nonneg [of "\<lfloor>y\<rfloor>"]
        by (simp add: bitlen_alt_def)
      then have "nat (bitlen (n * 2 ^ k) - 53) \<le> nat (bitlen \<lfloor>y\<rfloor>)"
        using eq by simp
      then have "(2::int) ^ nat (bitlen (n * 2 ^ k) - 53) dvd 2 ^ nat (bitlen \<lfloor>y\<rfloor>)"
        by (rule le_imp_power_dvd)
      then show ?thesis unfolding r eq .
    qed
  qed
qed

lemma double_round_nonneg_eq:
  "0 \<le> x \<Longrightarrow> double_round x = of_int (round_53 (x * 2 ^ 1074)) / 2 ^ 1074"
  by (cases "x = 0") (simp_all add: double_round_def round_53_eq)

lemma double_round_nonneg: "0 \<le> x \<Longrightarrow> 0 \<le> double_round x"
  by (simp add: double_round_nonneg_eq round_53_nonneg)

lemma double_round_mono:
  assumes "0 \<le> x" and "x \<le> y"
  shows "double_round x \<le> double_round y"
proof -
  have "round_53 (x * 2 ^ 1074) \<le> round_53 (y * 2 ^ 1074)"
    using assms by (intro round_53_mono) simp_all
  then have "(of_int (round_53 (x * 2 ^ 1074)) :: real) \<le> of_int (round_53 (y * 2 ^ 1074))"
    by (rule of_int_le_iff [THEN iffD2])
  then show ?thesis
    using assms by (simp add: double_round_nonneg_eq divide_right_mono)
qed

lemma double_round_idem:
  assumes "0 \<le> x"
  shows "double_round (double_round x) = double_round x"
proof -
  have "double_round (double_round x)
      = of_int (round_53 (double_round x * 2 ^ 1074)) / 2 ^ 1074"
    using double_round_nonneg [OF assms] by (rule double_round_nonneg_eq)
  also have "double_round x * 2 ^ 1074 = of_int (round_53 (x * 2 ^ 1074))"
    using assms by (simp add: double_round_nonneg_eq)
  also have "round_53 (of_int (round_53 (x * 2 ^ 1074))) = round_53 (x * 2 ^ 1074)"
    using assms by (intro round_53_idem) simp
  finally show ?thesis using assms by (simp add: double_round_nonneg_eq)
qed

lemma double_round_exact:
  assumes "0 \<le> m" and "m < 2 ^ 53" and "j \<le> 1074"
  shows "double_round (of_int m / 2 ^ j) = of_int m / 2 ^ j"
proof -
  have e: "(of_int m :: real) / 2 ^ j * 2 ^ 1074 = of_int (m * 2 ^ (1074 - j))"
    using assms(3) by (rule scale_dyadic)
  have "round_53 (of_int (m * 2 ^ (1074 - j))) = m * 2 ^ (1074 - j)"
  proof (rule round_53_exact, cases "m = 0")
    case True
    then show "2 ^ nat (bitlen (m * 2 ^ (1074 - j)) - 53) dvd m * 2 ^ (1074 - j)" by simp
  next
    case False
    with assms(1) have mp: "0 < m" by simp
    have "bitlen m \<le> 53" using assms(2) bitlen_le_iff_power [of m 53] by simp
    then have "nat (bitlen (m * 2 ^ (1074 - j)) - 53) \<le> 1074 - j"
      using mp by simp
    then have "(2::int) ^ nat (bitlen (m * 2 ^ (1074 - j)) - 53) dvd 2 ^ (1074 - j)"
      by (rule le_imp_power_dvd)
    then show "2 ^ nat (bitlen (m * 2 ^ (1074 - j)) - 53) dvd m * 2 ^ (1074 - j)"
      by (rule dvd_mult)
  qed
  moreover have "0 \<le> (of_int m :: real) / 2 ^ j" using assms(1) by simp
  then have "double_round (of_int m / 2 ^ j)
      = of_int (round_53 (of_int m / 2 ^ j * 2 ^ 1074)) / 2 ^ 1074"
    by (rule double_round_nonneg_eq)
  ultimately have "double_round (of_int m / 2 ^ j) = of_int (m * 2 ^ (1074 - j)) / 2 ^ 1074"
    by (simp only: e)
  also have "\<dots> = of_int m / 2 ^ j"
    using assms(3) by (rule unscale_dyadic)
  finally show ?thesis .
qed

lemma double_round_consts [simp]:
  "double_round 0 = 0" "double_round 18 = 18" "double_round 100 = 100"
  using double_round_exact [of 0 0] double_round_exact [of 18 0] double_round_exact [of 100 0]
  by simp_all


lemma bitlen_floor_binade:
  assumes "2 ^ n \<le> (y::real)" and "y < 2 ^ (n + 1)"
  shows "bitlen \<lfloor>y\<rfloor> = int n + 1"
proof (rule antisym)
  have "\<lfloor>y\<rfloor> < 2 ^ (n + 1)"
    using assms(2) by (simp add: floor_less_iff)
  then show "bitlen \<lfloor>y\<rfloor> \<le> int n + 1"
    using bitlen_le_iff_power [of "\<lfloor>y\<rfloor>" "int n + 1"] by (simp add: nat_add_distrib)
next
  have "(of_int (2 ^ n) :: real) \<le> y" using assms(1) by simp
  then have "2 ^ n \<le> \<lfloor>y\<rfloor>" by (rule le_floor_iff [THEN iffD2])
  then show "int n + 1 \<le> bitlen \<lfloor>y\<rfloor>"
    using bitlen_ge_iff_power [of "int n + 1" "\<lfloor>y\<rfloor>"] by (simp add: nat_add_distrib)
qed

lemma double_round_binade:
  assumes "2 ^ e \<le> x" and "x < 2 ^ (e + 1)" and "e \<le> 52"
  shows "double_round x = of_int (round_even (x * 2 ^ (52 - e))) / 2 ^ (52 - e)"
proof -
  define k where "k = e + 1022"
  define d where "d = 52 - e"
  have kd: "k + d = 1074" using assms(3) by (simp add: k_def d_def)
  have p: "(2::real) ^ 1074 = 2 ^ k * 2 ^ d" unfolding kd [symmetric] by (rule power_add)
  have x0: "0 \<le> x" using assms(1) by (rule order_trans [rotated]) simp
  have lo: "2 ^ (e + 1074) \<le> x * 2 ^ 1074"
    using assms(1) by (simp add: power_add)
  have hi: "x * 2 ^ 1074 < 2 ^ (e + 1074 + 1)"
    using assms(2) by (simp add: power_add)
  have "bitlen \<lfloor>x * 2 ^ 1074\<rfloor> = int (e + 1074) + 1"
    using lo hi by (rule bitlen_floor_binade)
  then have "nat (bitlen \<lfloor>x * 2 ^ 1074\<rfloor> - 53) = k" by (simp add: k_def)
  then have "round_53 (x * 2 ^ 1074) = round_even (x * 2 ^ 1074 / 2 ^ k) * 2 ^ k"
    by (simp only: round_53_eq)
  also have "x * 2 ^ 1074 / 2 ^ k = x * 2 ^ d" unfolding p by simp
  finally have "double_round x = of_int (round_even (x * 2 ^ d) * 2 ^ k) / 2 ^ 1074"
    using x0 by (simp only: double_round_nonneg_eq)
  also have "\<dots> = of_int (round_even (x * 2 ^ d)) / 2 ^ d" unfolding p by simp
  finally show ?thesis by (simp only: d_def)
qed

text \<open>Numerals with at most 53 significant bits, and their halves, quarters and
  eighths, are doubles.\<close>

lemma double_round_numeral:
  "numeral n < (2::int) ^ 53 \<Longrightarrow> double_round (numeral n) = numeral n"
  "numeral n < (2::int) ^ 53 \<Longrightarrow> double_round (numeral n / 2) = numeral n / 2"
  "numeral n < (2::int) ^ 53 \<Longrightarrow> double_round (numeral n / 4) = numeral n / 4"
  "numeral n < (2::int) ^ 53 \<Longrightarrow> double_round (numeral n / 8) = numeral n / 8"
  using double_round_exact [of "numeral n" 0] double_round_exact [of "numeral n" 1]
    double_round_exact [of "numeral n" 2] double_round_exact [of "numeral n" 3]
  by simp_all

text \<open>One step of the progress: from a double in \<open>[0, 100]\<close> and a random value that is
  not negative, the new value is a double in \<open>[0, 100]\<close> and not below the old one.\<close>

lemma next_progress:
  assumes "0 \<le> r" and "0 \<le> p" and "p \<le> 100" and "is_double p"
  shows "p \<le> min 100 (double_round (p + double_round (r * 18)))"
    and "is_double (min 100 (double_round (p + double_round (r * 18))))"
proof -
  have inc: "0 \<le> double_round (r * 18)"
    using assms(1) by (intro double_round_nonneg) simp
  then have "double_round p \<le> double_round (p + double_round (r * 18))"
    using assms(2) by (intro double_round_mono) simp_all
  then have "p \<le> double_round (p + double_round (r * 18))"
    using assms(4) by (simp add: is_double_def)
  with assms(3) show "p \<le> min 100 (double_round (p + double_round (r * 18)))"
    by simp
  have "is_double (double_round (p + double_round (r * 18)))"
    using inc assms(2) by (simp add: is_double_def double_round_idem)
  moreover have "is_double 100" by (simp add: is_double_def)
  ultimately show "is_double (min 100 (double_round (p + double_round (r * 18))))"
    by (simp add: min_def)
qed

text \<open>The random increment lies between 0 and 18.\<close>

lemma increment_bounds:
  assumes "0 \<le> r" and "r < 1"
  shows "0 \<le> double_round (r * 18) \<and> double_round (r * 18) \<le> 18"
proof -
  have "0 \<le> double_round (r * 18)"
    using assms(1) by (intro double_round_nonneg) simp
  moreover have "double_round (r * 18) \<le> double_round 18"
    using assms by (intro double_round_mono) simp_all
  ultimately show ?thesis by simp
qed

text \<open>The rounding error is at most half a unit; at a quarter below a half-integer the
  rounding does not pass the half-integer.\<close>

lemma round_even_half_up: "of_int (round_even x) \<le> x + 1/2"
  by (simp add: round_even_def Let_def) linarith

lemma round_even_quarter: "round_even (of_int a / 2 - 1/4) \<le> \<lfloor>of_int a / 2 :: real\<rfloor>"
proof (cases "even a")
  case True
  then obtain b where a: "a = 2 * b" by (rule evenE)
  have "\<lfloor>of_int b - 1/4 :: real\<rfloor> = b - 1" by (rule floor_unique) simp_all
  then have "round_even (of_int b - 1/4) = b" by (simp add: round_even_def Let_def)
  with a show ?thesis by simp
next
  case False
  then obtain b where a: "a = 2 * b + 1" by (rule oddE)
  have "\<lfloor>of_int b + 1/4 :: real\<rfloor> = b" by (rule floor_unique) simp_all
  then have r: "round_even (of_int b + 1/4) = b" by (simp add: round_even_def Let_def)
  have f: "\<lfloor>of_int b + 1/2 :: real\<rfloor> = b" by (rule floor_unique) simp_all
  have e1: "(of_int a :: real) / 2 - 1/4 = of_int b + 1/4" using a by simp
  have e2: "(of_int a :: real) / 2 = of_int b + 1/2" using a by simp
  have "round_even (of_int a / 2 - 1/4) = b" by (simp only: e1 r)
  moreover have "\<lfloor>of_int a / 2 :: real\<rfloor> = b" by (simp only: e2 f)
  ultimately show ?thesis by (simp only: order_refl)
qed

text \<open>A double in a binade is a multiple of the binade's spacing.\<close>

lemma is_double_binade:
  assumes "is_double x" and "2 ^ e \<le> x" and "x < 2 ^ (e + 1)" and "e \<le> 52"
  shows "x * 2 ^ (52 - e) = of_int (round_even (x * 2 ^ (52 - e)))"
proof -
  have "x = of_int (round_even (x * 2 ^ (52 - e))) / 2 ^ (52 - e)"
    using double_round_binade [OF assms(2-4)] assms(1) by (simp add: is_double_def)
  then have "x * 2 ^ (52 - e) = of_int (round_even (x * 2 ^ (52 - e))) / 2 ^ (52 - e) * 2 ^ (52 - e)"
    by simp
  then show ?thesis by simp
qed

lemma binade_upper:
  assumes "2 ^ e \<le> x" and "x < 2 ^ (e + 1)" and "e \<le> 52"
  shows "double_round x \<le> x + 1 / 2 ^ (53 - e)"
proof -
  have "double_round x = of_int (round_even (x * 2 ^ (52 - e))) / 2 ^ (52 - e)"
    using assms by (rule double_round_binade)
  also have "\<dots> \<le> (x * 2 ^ (52 - e) + 1/2) / 2 ^ (52 - e)"
    using round_even_half_up [of "x * 2 ^ (52 - e)"] by (simp add: divide_right_mono)
  also have "\<dots> = x + 1 / (2 * 2 ^ (52 - e))"
    by (simp add: add_divide_distrib)
  also have "2 * (2::real) ^ (52 - e) = 2 ^ (53 - e)"
    using assms(3) by (simp add: Suc_diff_le flip: power_Suc)
  finally show ?thesis .
qed


text \<open>The largest double below 1 is \<open>1 - 2 ^ -53\<close>.\<close>

lemma double_below_one:
  assumes "is_double r" and "0 \<le> r" and "r < 1"
  shows "r \<le> 1 - 1 / 2 ^ 53"
proof (rule ccontr)
  assume "\<not> r \<le> 1 - 1 / 2 ^ 53"
  then have lo: "1 - 1 / 2 ^ 53 < r" by simp
  define y where "y = r * 2 ^ 1074"
  have ylo: "2 ^ 1074 - 2 ^ 1021 < y"
  proof -
    have "(1 - 1 / 2 ^ 53) * 2 ^ 1074 < r * 2 ^ 1074"
      using lo by (rule mult_strict_right_mono) simp
    moreover have "(1 - 1 / 2 ^ 53) * (2::real) ^ 1074 = 2 ^ 1074 - 2 ^ 1021"
      by (simp add: algebra_simps)
    ultimately show ?thesis by (simp only: y_def)
  qed
  have yhi: "y < 2 ^ 1074"
    using assms(3) by (simp add: y_def)
  have "2 ^ 1073 \<le> y" using ylo by simp
  then have bl: "bitlen \<lfloor>y\<rfloor> = int 1073 + 1"
    using yhi by (intro bitlen_floor_binade) simp_all
  then have k: "nat (bitlen \<lfloor>y\<rfloor> - 53) = 1021" by simp
  have "r = of_int (round_53 y) / 2 ^ 1074"
    using assms(1,2) by (simp add: is_double_def double_round_nonneg_eq y_def)
  then have "y = of_int (round_53 y)" by (simp add: y_def)
  also have "round_53 y = round_even (y / 2 ^ 1021) * 2 ^ 1021"
    by (simp only: round_53_eq k)
  finally have yy: "y = of_int (round_even (y / 2 ^ 1021)) * 2 ^ 1021" by simp
  define n where "n = round_even (y / 2 ^ 1021)"
  have yn: "y = of_int n * 2 ^ 1021" using yy by (simp only: n_def)
  have "(2 ^ 53 - 1) * (2::real) ^ 1021 < of_int n * 2 ^ 1021"
    using ylo unfolding yn by (simp add: algebra_simps)
  then have "(2::real) ^ 53 - 1 < of_int n" by simp
  then have "(of_int (2 ^ 53 - 1) :: real) < of_int n" by simp
  then have n1: "2 ^ 53 - 1 < n" by (simp only: of_int_less_iff)
  have "of_int n * (2::real) ^ 1021 < 2 ^ 53 * 2 ^ 1021"
    using yhi unfolding yn by simp
  then have "of_int n < (2::real) ^ 53" by simp
  then have "(of_int n :: real) < of_int (2 ^ 53)" by simp
  then have "n < 2 ^ 53" by (simp only: of_int_less_iff)
  with n1 show False by simp
qed


text \<open>So the random increment is at most the largest double below 18.\<close>

lemma increment_below_18:
  assumes "is_double r" and "0 \<le> r" and "r < 1"
  shows "double_round (r * 18) \<le> 18 - 1 / 2 ^ 48"
proof -
  have "r \<le> 1 - 1 / 2 ^ 53" using assms by (rule double_below_one)
  then have "r * 18 \<le> (1 - 1 / 2 ^ 53) * 18" by simp
  then have "double_round (r * 18) \<le> double_round ((1 - 1 / 2 ^ 53) * 18)"
    using assms(2) by (intro double_round_mono) simp_all
  also have "double_round ((1 - 1 / 2 ^ 53) * 18) = 18 - 1 / 2 ^ 48"
    using double_round_binade [of 4 "(1 - 1 / 2 ^ 53) * 18"]
    by (simp add: round_even_def Let_def)
  finally show ?thesis .
qed

lemma sum_with_largest_increment:
  assumes "is_double p" and "0 \<le> p" and "p < 82"
  shows "double_round (p + (18 - 1 / 2 ^ 48)) \<le> p + 18"
proof -
  define z where "z = p + (18 - 1 / 2 ^ 48)"
  have z16: "2 ^ 4 \<le> z" using assms(2) by (simp add: z_def)
  have z128: "z < 2 ^ (6 + 1)" using assms(3) by (simp add: z_def)
  consider "z < 2 ^ (4 + 1)" | "2 ^ 5 \<le> z" "z < 2 ^ (5 + 1)" | "2 ^ 6 \<le> z"
    by fastforce
  then have "double_round z \<le> p + 18"
  proof cases
    case 1
    have "double_round z \<le> z + 1 / 2 ^ (53 - 4)"
      using z16 1 by (rule binade_upper) simp
    then show ?thesis by (simp add: z_def)
  next
    case 2
    have "double_round z \<le> z + 1 / 2 ^ (53 - 5)"
      using 2 by (rule binade_upper) simp
    then show ?thesis by (simp add: z_def)
  next
    case 3
    then have p32: "2 ^ 5 \<le> p" by (simp add: z_def)
    have "\<exists>n. p * 2 ^ 47 = of_int n"
    proof (cases "p < 2 ^ (5 + 1)")
      case True
      have "p * 2 ^ (52 - 5) = of_int (round_even (p * 2 ^ (52 - 5)))"
        using assms(1) p32 True by (rule is_double_binade) simp
      then show ?thesis by auto
    next
      case False
      then have "2 ^ 6 \<le> p" by simp
      moreover have "p < 2 ^ (6 + 1)" using assms(3) by simp
      ultimately have "p * 2 ^ (52 - 6) = of_int (round_even (p * 2 ^ (52 - 6)))"
        using assms(1) by (intro is_double_binade) simp_all
      then have "p * 2 ^ 47 = of_int (2 * round_even (p * 2 ^ (52 - 6)))" by simp
      then show ?thesis by blast
    qed
    then obtain n where n: "p * 2 ^ 47 = of_int n" ..
    define a where "a = n + 18 * 2 ^ 47"
    have pn: "p = of_int n / 2 ^ 47" using n by simp
    have za: "z * 2 ^ (52 - 6) = of_int a / 2 - 1 / 4"
      by (simp add: z_def a_def pn add_divide_distrib)
    have pa: "p + 18 = of_int a / 2 / 2 ^ (52 - 6)"
      by (simp add: a_def pn add_divide_distrib)
    have "double_round z = of_int (round_even (z * 2 ^ (52 - 6))) / 2 ^ (52 - 6)"
      using 3 z128 by (rule double_round_binade) simp
    also have "\<dots> = of_int (round_even (of_int a / 2 - 1 / 4)) / 2 ^ (52 - 6)"
      by (simp only: za)
    also have "\<dots> \<le> of_int \<lfloor>of_int a / 2 :: real\<rfloor> / 2 ^ (52 - 6)"
      using round_even_quarter [of a] by (intro divide_right_mono) simp_all
    also have "\<dots> \<le> of_int a / 2 / 2 ^ (52 - 6)"
      using of_int_floor_le [of "of_int a / 2 :: real"] by (intro divide_right_mono) simp_all
    finally show ?thesis by (simp only: pa)
  qed
  then show ?thesis by (simp only: z_def)
qed

text \<open>With a double from \<open>Math.random()\<close>, a tick raises the progress by at most 18.\<close>

lemma net_increase:
  assumes "is_double p" and "0 \<le> p" and "p \<le> 100"
    and "is_double r" and "0 \<le> r" and "r < 1"
  shows "min 100 (double_round (p + double_round (r * 18))) \<le> p + 18"
proof (cases "p < 82")
  case True
  have "0 \<le> double_round (r * 18)"
    using assms(5) by (intro double_round_nonneg) simp
  moreover have "double_round (r * 18) \<le> 18 - 1 / 2 ^ 48"
    using assms(4-6) by (rule increment_below_18)
  ultimately have "double_round (p + double_round (r * 18))
      \<le> double_round (p + (18 - 1 / 2 ^ 48))"
    using assms(2) by (intro double_round_mono) simp_all
  also have "\<dots> \<le> p + 18"
    using assms(1,2) True by (rule sum_with_largest_increment)
  finally show ?thesis by simp
next
  case False
  then show ?thesis by simp
qed

subsection \<open>Helper facts\<close>

lemma run_Nil [simp]: "run [] s = s"
  by (simp add: run_def)

lemma run_Cons [simp]: "run (e # es) s = run es (fire e s)"
  by (simp add: run_def)

lemmas handler_defs =
  handleFileChange_def toggleOption_def startAnalysis_def resetWorkflow_def
  tick_def timeout_def

lemmas effect_defs = commit_def effect_body_def effect_cleanup_def

lemma fire_Tick: "fire (Tick r) s = tick r s"
  by (simp add: fire_def tick_def commit_def Let_def)

lemma selectedOptions_fire:
  "selectedOptions (fire e s) =
   (case e of Toggle i \<Rightarrow> selectedOptions (toggleOption i s) | _ \<Rightarrow> selectedOptions s)"
  by (cases e) (simp_all add: fire_def handler_defs effect_defs Let_def split: option.splits)

lemma run_upload_and_start:
  "run upload_and_start initial_state =
   \<lparr>selectedFile = Some (File ''app.apk'' 4096 ''application/vnd.android.package-archive''), dialogOpen = False, selectedOptions = [''mobsf''],
    step = processing, progress = 0, timer = True, timeouts = 0\<rparr>"
  by (simp add: upload_and_start_def initial_state_def fire_def handler_defs effect_defs
      analysisReady_def)

lemma run_completed_run:
  "run completed_run initial_state =
   \<lparr>selectedFile = Some (File ''app.apk'' 4096 ''application/vnd.android.package-archive''), dialogOpen = False, selectedOptions = [''mobsf''],
    step = processing, progress = 100, timer = False, timeouts = 1\<rparr>"
  by (simp add: completed_run_def initial_state_def fire_def handler_defs effect_defs
      analysisReady_def Let_def double_round_numeral)

lemma run_almost_done_run:
  "run almost_done_run initial_state =
   \<lparr>selectedFile = Some (File ''app.apk'' 4096 ''application/vnd.android.package-archive''), dialogOpen = False, selectedOptions = [''mobsf''],
    step = processing, progress = 189/2, timer = True, timeouts = 0\<rparr>"
  by (simp add: almost_done_run_def initial_state_def fire_def handler_defs effect_defs
      analysisReady_def Let_def double_round_numeral)

lemma run_other_run:
  "run other_run initial_state =
   \<lparr>selectedFile = Some (File ''bank.apk'' 123456 ''application/vnd.android.package-archive''), dialogOpen = False,
    selectedOptions = [''mobsf'', ''frida''],
    step = summary, progress = 100, timer = False, timeouts = 0\<rparr>"
  by (simp add: other_run_def initial_state_def fire_def handler_defs effect_defs
      analysisReady_def Let_def double_round_numeral)

subsection \<open>The delayed transition and reset\<close>

text \<open>Reset during processing does stop the interval: the step changes, so the effect's
  cleanup runs, and a cleared interval ticks no more.\<close>

lemma reset_stops_ticks:
  "step s = processing \<Longrightarrow> fire (Tick r) (fire Reset s) = fire Reset s"
  by (simp add: fire_def handler_defs effect_defs)

text \<open>
  C1 (the claim: a reset during processing cancels the pending delayed transition, so
  the summary is never entered after a reset). The code does otherwise. After the tick
  that reaches 100 the step is still \<open>processing\<close> and one timeout is scheduled; a reset at
  that moment gives \<open>idle\<close> with progress 0, but the timeout stays scheduled, and when it
  fires the step becomes \<open>summary\<close>. If the analysis is started again before it fires,
  the stale timeout ends the new run in \<open>summary\<close> at progress 0.
\<close>

theorem reset_leaves_delayed_summary_pending:
  "step (run completed_run initial_state) = processing
   \<and> progress (run completed_run initial_state) = 100
   \<and> timeouts (run completed_run initial_state) = 1
   \<and> step (fire Reset (run completed_run initial_state)) = idle
   \<and> progress (fire Reset (run completed_run initial_state)) = 0
   \<and> timeouts (fire Reset (run completed_run initial_state)) = 1
   \<and> step (fire Timeout (fire Reset (run completed_run initial_state))) = summary
   \<and> step (fire Timeout (fire Start (fire Reset (run completed_run initial_state)))) = summary
   \<and> progress (fire Timeout (fire Start (fire Reset (run completed_run initial_state)))) = 0"
  by (simp add: run_completed_run fire_def handler_defs effect_defs analysisReady_def)

subsection \<open>The selected scanners\<close>

lemma mobsf_toggleOption:
  "''mobsf'' \<in> set (selectedOptions s) \<Longrightarrow>
   ''mobsf'' \<in> set (selectedOptions (toggleOption i s))"
  by (simp add: toggleOption_def Let_def)

lemma mobsf_fire:
  "''mobsf'' \<in> set (selectedOptions s) \<Longrightarrow> ''mobsf'' \<in> set (selectedOptions (fire e s))"
  by (cases e) (simp_all add: selectedOptions_fire mobsf_toggleOption)

lemma mobsf_run:
  "''mobsf'' \<in> set (selectedOptions s) \<Longrightarrow> ''mobsf'' \<in> set (selectedOptions (run es s))"
  by (induction es arbitrary: s) (simp_all add: mobsf_fire)

text \<open>
  C2. The required scanner id \<open>mobsf\<close> is always selected: it is in the initial state,
  toggling it changes nothing, and from any state that contains it every sequence of
  toggles, with any ids, and indeed every sequence of events, ends in a state that
  contains it.
\<close>

theorem required_scanner_always_selected:
  "''mobsf'' \<in> set (selectedOptions initial_state)
   \<and> toggleOption ''mobsf'' s = s \<and> fire (Toggle ''mobsf'') s = s
   \<and> (''mobsf'' \<in> set (selectedOptions s) \<longrightarrow>
        ''mobsf'' \<in> set (selectedOptions (run (map Toggle ids) s))
        \<and> ''mobsf'' \<in> set (selectedOptions (run es s)))"
  by (simp add: mobsf_run initial_state_def toggleOption_def fire_def commit_def)

theorem required_scanner_always_selected_witness:
  "''mobsf'' \<in> set (selectedOptions initial_state)
   \<and> ''mobsf'' \<in> set (selectedOptions
        (run (map Toggle [''frida'', ''mobsf'', ''frida'', ''drozer'', ''mobsf''])
          initial_state))
   \<and> selectedOptions
        (run (map Toggle [''frida'', ''mobsf'', ''frida'', ''drozer'', ''mobsf''])
          initial_state)
      = [''mobsf'', ''drozer'']"
  using required_scanner_always_selected
    [of initial_state "[''frida'', ''mobsf'', ''frida'', ''drozer'', ''mobsf'']" "[]"]
  by (simp add: initial_state_def fire_def toggleOption_def commit_def)

lemma mset_filter_neq:
  "count_list xs i \<le> 1 \<Longrightarrow> i \<in> set xs \<Longrightarrow>
   mset (filter (\<lambda>j. j \<noteq> i) xs @ [i]) = mset xs"
proof (induction xs)
  case Nil
  then show ?case by simp
next
  case (Cons x xs)
  show ?case
  proof (cases "x = i")
    case True
    with Cons.prems have "count_list xs i = 0" by simp
    then have "i \<notin> set xs" by (simp add: count_list_0_iff)
    then have "filter (\<lambda>j. j \<noteq> i) xs = xs" by (auto simp add: filter_id_conv)
    with True show ?thesis by simp
  next
    case False
    with Cons show ?thesis by simp
  qed
qed

lemma toggleOption_twice:
  "i \<noteq> ''mobsf'' \<Longrightarrow>
   selectedOptions (toggleOption i (toggleOption i s)) =
   (if i \<in> set (selectedOptions s) then filter (\<lambda>j. j \<noteq> i) (selectedOptions s) @ [i]
    else selectedOptions s)"
  by (auto simp add: toggleOption_def Let_def filter_id_conv)

text \<open>
  C9. For an id other than \<open>mobsf\<close> that occurs at most once among the selected scanners,
  toggling it twice gives the same set of ids as before; the list is a permutation of
  the original one (the id may have moved to the end), and no other state changes.
\<close>

theorem toggle_twice_same_set:
  "i \<noteq> ''mobsf'' \<Longrightarrow> count_list (selectedOptions s) i \<le> 1 \<Longrightarrow>
   set (selectedOptions (toggleOption i (toggleOption i s))) = set (selectedOptions s)
   \<and> mset (selectedOptions (toggleOption i (toggleOption i s))) = mset (selectedOptions s)
   \<and> toggleOption i (toggleOption i s)
      = s\<lparr>selectedOptions := selectedOptions (toggleOption i (toggleOption i s))\<rparr>"
proof -
  assume i: "i \<noteq> ''mobsf''" and c: "count_list (selectedOptions s) i \<le> 1"
  have m: "mset (selectedOptions (toggleOption i (toggleOption i s))) = mset (selectedOptions s)"
    using c mset_filter_neq [of "selectedOptions s" i]
    by (simp only: toggleOption_twice [OF i] split: if_splits) simp
  then have "set (selectedOptions (toggleOption i (toggleOption i s))) = set (selectedOptions s)"
    by (rule mset_eq_setD)
  moreover have "toggleOption i (toggleOption i s)
      = s\<lparr>selectedOptions := selectedOptions (toggleOption i (toggleOption i s))\<rparr>"
    using i by (simp add: toggleOption_def Let_def)
  ultimately show ?thesis using m by simp
qed

theorem toggle_twice_same_set_witness:
  "''frida'' \<noteq> ''mobsf''
   \<and> count_list [''mobsf'', ''frida'', ''drozer''] ''frida'' \<le> 1
   \<and> selectedOptions (toggleOption ''frida'' (toggleOption ''frida''
        (initial_state\<lparr>selectedOptions := [''mobsf'', ''frida'', ''drozer'']\<rparr>)))
      = [''mobsf'', ''drozer'', ''frida'']
   \<and> set [''mobsf'', ''drozer'', ''frida''] = set [''mobsf'', ''frida'', ''drozer'']"
  using toggle_twice_same_set
    [of "''frida''" "initial_state\<lparr>selectedOptions := [''mobsf'', ''frida'', ''drozer'']\<rparr>"]
  by (simp add: toggleOption_def Let_def)

lemma distinct_toggleOption:
  "distinct (selectedOptions s) \<Longrightarrow> distinct (selectedOptions (toggleOption i s))"
  by (simp add: toggleOption_def Let_def)

lemma distinct_fire:
  "distinct (selectedOptions s) \<Longrightarrow> distinct (selectedOptions (fire e s))"
  by (cases e) (simp_all add: selectedOptions_fire distinct_toggleOption)

lemma distinct_run:
  "distinct (selectedOptions s) \<Longrightarrow> distinct (selectedOptions (run es s))"
  by (induction es arbitrary: s) (simp_all add: distinct_fire)

text \<open>
  C10. The selected scanners never hold an id twice: the initial list is duplicate-free,
  each handler (set file, toggle, start, reset), each event and each sequence of events
  keeps a duplicate-free list duplicate-free, and so every state reached from the
  initial one is duplicate-free.
\<close>

theorem selected_scanners_distinct:
  "distinct (selectedOptions initial_state)
   \<and> (distinct (selectedOptions s) \<longrightarrow>
        distinct (selectedOptions (handleFileChange nf s))
        \<and> distinct (selectedOptions (toggleOption i s))
        \<and> distinct (selectedOptions (startAnalysis s))
        \<and> distinct (selectedOptions (resetWorkflow s))
        \<and> distinct (selectedOptions (fire e s))
        \<and> distinct (selectedOptions (run es s)))
   \<and> distinct (selectedOptions (run es initial_state))"
proof -
  have "distinct (selectedOptions initial_state)"
    by (simp add: initial_state_def)
  moreover have "distinct (selectedOptions (run es initial_state))"
    using calculation by (rule distinct_run)
  moreover have "distinct (selectedOptions (handleFileChange nf s))
      \<and> distinct (selectedOptions (startAnalysis s))
      \<and> distinct (selectedOptions (resetWorkflow s))" if "distinct (selectedOptions s)"
    using that by (simp add: handler_defs split: option.splits)
  ultimately show ?thesis
    by (simp add: distinct_toggleOption distinct_fire distinct_run)
qed

theorem selected_scanners_distinct_witness:
  "distinct (selectedOptions (run other_run initial_state))
   \<and> selectedOptions (toggleOption ''drozer'' (run other_run initial_state))
      = [''mobsf'', ''frida'', ''drozer'']
   \<and> distinct (selectedOptions (toggleOption ''drozer'' (run other_run initial_state)))
   \<and> selectedOptions (toggleOption ''frida'' (run other_run initial_state)) = [''mobsf'']"
  using selected_scanners_distinct
    [of "run other_run initial_state" None "''drozer''" Reset other_run]
  by (simp add: run_other_run toggleOption_def Let_def)

subsection \<open>Starting, resetting, choosing a file\<close>

text \<open>
  C3. When no file is selected or no scanner is selected, \<open>analysisReady\<close> is false and
  \<open>startAnalysis\<close> returns the state it was given; the whole event, effect included,
  leaves every component of the state as it was. No branch of the handler fails.
\<close>

theorem start_noop_when_not_ready:
  "selectedFile s = None \<or> selectedOptions s = [] \<Longrightarrow>
   \<not> analysisReady s \<and> startAnalysis s = s \<and> fire Start s = s"
  by (auto simp add: analysisReady_def startAnalysis_def fire_def commit_def)

theorem start_noop_when_not_ready_witness:
  "selectedFile initial_state = None \<and> fire Start initial_state = initial_state
   \<and> selectedOptions
        (initial_state\<lparr>selectedFile := Some (File ''app.apk'' 4096 ''application/vnd.android.package-archive''), selectedOptions := []\<rparr>) = []
   \<and> fire Start
        (initial_state\<lparr>selectedFile := Some (File ''app.apk'' 4096 ''application/vnd.android.package-archive''), selectedOptions := []\<rparr>)
      = initial_state\<lparr>selectedFile := Some (File ''app.apk'' 4096 ''application/vnd.android.package-archive''), selectedOptions := []\<rparr>"
  using start_noop_when_not_ready [of initial_state]
    start_noop_when_not_ready
      [of "initial_state\<lparr>selectedFile := Some (File ''app.apk'' 4096 ''application/vnd.android.package-archive''), selectedOptions := []\<rparr>"]
  by (simp add: initial_state_def)

text \<open>
  C5. With a file selected and at least one scanner selected, starting from \<open>idle\<close> or
  \<open>summary\<close> closes the dialog and sets the step to \<open>processing\<close>; the effect that runs on
  entering \<open>processing\<close> sets the progress to 0 and starts the interval. The file and the
  scanners are kept.
\<close>

theorem start_enters_processing:
  "selectedFile s \<noteq> None \<Longrightarrow> selectedOptions s \<noteq> [] \<Longrightarrow>
   step s = idle \<or> step s = summary \<Longrightarrow>
   dialogOpen (fire Start s) = False \<and> step (fire Start s) = processing
   \<and> progress (fire Start s) = 0 \<and> timer (fire Start s)
   \<and> selectedFile (fire Start s) = selectedFile s
   \<and> selectedOptions (fire Start s) = selectedOptions s"
  by (auto simp add: analysisReady_def startAnalysis_def fire_def effect_defs)

theorem start_enters_processing_witness:
  "selectedFile (run other_run initial_state) \<noteq> None
   \<and> selectedOptions (run other_run initial_state) \<noteq> []
   \<and> step (run other_run initial_state) = summary
   \<and> progress (run other_run initial_state) = 100
   \<and> step (fire Start (run other_run initial_state)) = processing
   \<and> dialogOpen (fire Start (run other_run initial_state)) = False
   \<and> progress (fire Start (run other_run initial_state)) = 0"
  using start_enters_processing [of "run other_run initial_state"]
  by (simp add: run_other_run)

text \<open>
  C6. \<open>resetWorkflow\<close>, in any state, sets \<open>progress\<close> to 0 and \<open>step\<close> to \<open>idle\<close>, and
  leaves the selected file, \<open>selectedOptions\<close> and \<open>dialogOpen\<close> as they were, both for the
  handler alone and for the whole event including the effect that follows it.
\<close>

theorem reset_sets_idle_and_keeps_selection:
  "progress (resetWorkflow s) = 0 \<and> step (resetWorkflow s) = idle
   \<and> selectedFile (resetWorkflow s) = selectedFile s
   \<and> selectedOptions (resetWorkflow s) = selectedOptions s
   \<and> dialogOpen (resetWorkflow s) = dialogOpen s
   \<and> progress (fire Reset s) = 0 \<and> step (fire Reset s) = idle
   \<and> selectedFile (fire Reset s) = selectedFile s
   \<and> selectedOptions (fire Reset s) = selectedOptions s
   \<and> dialogOpen (fire Reset s) = dialogOpen s"
  by (simp add: fire_def resetWorkflow_def effect_defs)

theorem reset_sets_idle_and_keeps_selection_witness:
  "progress (fire Reset (run other_run initial_state)) = 0
   \<and> step (fire Reset (run other_run initial_state)) = idle
   \<and> selectedFile (fire Reset (run other_run initial_state)) = Some (File ''bank.apk'' 123456 ''application/vnd.android.package-archive'')
   \<and> selectedOptions (fire Reset (run other_run initial_state)) = [''mobsf'', ''frida'']"
  using reset_sets_idle_and_keeps_selection [of "run other_run initial_state"]
  by (simp add: run_other_run)

text \<open>
  C8. Choosing a file replaces the selected file, whatever the file is and whatever was
  selected before, and changes nothing else, the step in particular; a change event
  without a file leaves the whole state as it was.
\<close>

theorem set_file_replaces_or_keeps:
  "handleFileChange (Some f) s = s\<lparr>selectedFile := Some f\<rparr>
   \<and> fire (FileChange (Some f)) s = s\<lparr>selectedFile := Some f\<rparr>
   \<and> step (fire (FileChange (Some f)) s) = step s
   \<and> handleFileChange None s = s
   \<and> fire (FileChange None) s = s"
  by (simp add: handleFileChange_def fire_def commit_def)

theorem set_file_replaces_or_keeps_witness:
  "selectedFile (run other_run initial_state) = Some (File ''bank.apk'' 123456 ''application/vnd.android.package-archive'')
   \<and> selectedFile (fire (FileChange (Some (File ''notes.txt'' 0 ''text/plain''))) (run other_run initial_state))
      = Some (File ''notes.txt'' 0 ''text/plain'')
   \<and> step (fire (FileChange (Some (File ''notes.txt'' 0 ''text/plain''))) (run other_run initial_state))
      = summary
   \<and> fire (FileChange None) (run other_run initial_state) = run other_run initial_state"
  using set_file_replaces_or_keeps [of "File ''notes.txt'' 0 ''text/plain''" "run other_run initial_state"]
  by (simp add: run_other_run)

subsection \<open>Progress\<close>

lemma progress_ok_initial: "progress_ok initial_state"
  by (simp add: progress_ok_def initial_state_def is_double_def)

lemma progress_ok_tick:
  assumes "progress_ok s" and "0 \<le> r"
  shows "progress_ok (tick r s)"
proof -
  from assms(1) have p: "0 \<le> progress s" "progress s \<le> 100" "is_double (progress s)"
    and t: "timer s \<longrightarrow> step s = processing"
    by (simp_all add: progress_ok_def)
  note n = next_progress [OF assms(2) p]
  from n(1) p(1)
  have "0 \<le> min 100 (double_round (progress s + double_round (r * 18)))"
    by (rule order_trans [rotated])
  with n(2) p t show ?thesis
    by (auto simp add: progress_ok_def tick_def Let_def min_def split: if_splits)
qed

lemma progress_ok_fire:
  "progress_ok s \<Longrightarrow> valid_event e \<Longrightarrow> progress_ok (fire e s)"
proof (cases e)
  case (Tick r)
  assume "progress_ok s" "valid_event e"
  with Tick show ?thesis
    by (simp add: fire_Tick progress_ok_tick)
qed (auto simp add: progress_ok_def is_double_def fire_def handler_defs effect_defs
    split: option.splits)

lemma progress_ok_run:
  "progress_ok s \<Longrightarrow> list_all valid_event es \<Longrightarrow> progress_ok (run es s)"
  by (induction es arbitrary: s) (simp_all add: progress_ok_fire)

lemma tick_progress:
  assumes "progress_ok s" and "0 \<le> r"
  shows "progress s \<le> progress (tick r s) \<and> progress (tick r s) \<le> 100"
proof -
  from assms(1) have p: "0 \<le> progress s" "progress s \<le> 100" "is_double (progress s)"
    by (simp_all add: progress_ok_def)
  from next_progress(1) [OF assms(2) p] p(2) show ?thesis
    by (simp add: tick_def Let_def)
qed

lemma tick_trace_bounds:
  "progress_ok s \<Longrightarrow> \<forall>r\<in>set rs. 0 \<le> r \<and> r < 1 \<Longrightarrow>
   \<forall>p\<in>set (tick_trace rs s). progress s \<le> p \<and> p \<le> 100"
proof (induction rs arbitrary: s)
  case Nil
  then show ?case by (simp add: progress_ok_def)
next
  case (Cons r rs)
  have ok: "progress_ok (fire (Tick r) s)"
    using Cons.prems by (intro progress_ok_fire) simp_all
  have up: "progress s \<le> progress (fire (Tick r) s)"
    using Cons.prems tick_progress [of s r] by (simp add: fire_Tick)
  have "\<forall>p\<in>set (tick_trace rs (fire (Tick r) s)).
      progress (fire (Tick r) s) \<le> p \<and> p \<le> 100"
    using Cons.IH [OF ok] Cons.prems(2) by simp
  with up Cons.prems(1) show ?case
    by (auto simp add: progress_ok_def)
qed

lemma tick_trace_sorted:
  "progress_ok s \<Longrightarrow> \<forall>r\<in>set rs. 0 \<le> r \<and> r < 1 \<Longrightarrow> sorted (tick_trace rs s)"
proof (induction rs arbitrary: s)
  case Nil
  then show ?case by simp
next
  case (Cons r rs)
  have ok: "progress_ok (fire (Tick r) s)"
    using Cons.prems by (intro progress_ok_fire) simp_all
  have "\<forall>p\<in>set (tick_trace rs (fire (Tick r) s)).
      progress (fire (Tick r) s) \<le> p \<and> p \<le> 100"
    using tick_trace_bounds [OF ok, of rs] Cons.prems(2) by simp
  moreover have "progress s \<le> progress (fire (Tick r) s)"
    using Cons.prems tick_progress [of s r] by (simp add: fire_Tick)
  moreover have "sorted (tick_trace rs (fire (Tick r) s))"
    using Cons.IH [OF ok] Cons.prems(2) by simp
  ultimately show ?case by fastforce
qed

text \<open>Two roundings that decide a branch. With progress 94.5 and the random value
  \<open>tie_random\<close> the product is a tie and rounds to \<open>5.5 - 2 ^ -47\<close>; the sum
  \<open>100 - 2 ^ -47\<close> is a tie again and rounds to 100, so this tick ends the run, where
  the exact sum would stay below 100.\<close>

lemma tie_random_range: "0 \<le> tie_random \<and> tie_random < 1"
  by (simp add: tie_random_def)

lemma tie_random_double: "is_double tie_random"
  unfolding is_double_def tie_random_def
  using double_round_exact [of 1376099886140983 52] by simp

lemma double_round_product_tie:
  "double_round (tie_random * 18) = 774056185954303 / 2 ^ 47"
  using double_round_binade [of 2 "tie_random * 18"]
  by (simp add: tie_random_def round_even_def Let_def)

lemma double_round_sum_tie:
  "double_round (189 / 2 + 774056185954303 / 2 ^ 47) = 100"
  using double_round_binade [of 6 "189 / 2 + 774056185954303 / 2 ^ 47"]
  by (simp add: round_even_def Let_def)

lemma tick_rounds_to_100:
  "fire (Tick tie_random) (run almost_done_run initial_state)
   = (run almost_done_run initial_state)\<lparr>progress := 100, timer := False, timeouts := 1\<rparr>"
  by (simp only: fire_Tick run_almost_done_run tick_def Let_def state.simps
      double_round_product_tie double_round_sum_tie) simp

text \<open>
  C4. In every state \<open>s\<close> the page can reach (by any events, the random values lying in
  \<open>[0, 1)\<close>), the progress is within \<open>[0, 100]\<close> and the interval is live only while the
  step is \<open>processing\<close>. From there the progress values along any series of ticks are
  non-decreasing and within \<open>[0, 100]\<close>. The random increment \<open>Math.random() * 18\<close> is
  between 0 and 18; a tick of a live interval writes the double sum of the progress and
  the increment, clamped to 100, which is at most the double sum of the progress and 18
  and, the random value being a double, at most 18 more than the progress before; and a
  tick schedules the move to the summary only when the progress it writes is exactly 100.
\<close>

theorem progress_ticks_monotone_bounded:
  assumes "list_all valid_event es" and "s = run es initial_state"
    and "\<forall>r\<in>set rs. 0 \<le> r \<and> r < 1" and "0 \<le> r" and "r < 1"
  shows "0 \<le> progress s \<and> progress s \<le> 100
    \<and> (timer s \<longrightarrow> step s = processing)
    \<and> sorted (tick_trace rs s)
    \<and> (\<forall>p\<in>set (tick_trace rs s). 0 \<le> p \<and> p \<le> 100)
    \<and> progress s \<le> progress (fire (Tick r) s)
    \<and> progress (fire (Tick r) s) \<le> 100
    \<and> 0 \<le> double_round (r * 18) \<and> double_round (r * 18) \<le> 18
    \<and> (timer s \<longrightarrow>
         progress (fire (Tick r) s)
         = min 100 (double_round (progress s + double_round (r * 18))))
    \<and> progress (fire (Tick r) s) \<le> double_round (progress s + 18)
    \<and> (is_double r \<longrightarrow> progress (fire (Tick r) s) \<le> progress s + 18)
    \<and> (timeouts (fire (Tick r) s) \<noteq> timeouts s \<longrightarrow> progress (fire (Tick r) s) = 100)"
proof -
  have ok: "progress_ok s"
    using assms(1,2) progress_ok_initial by (simp add: progress_ok_run)
  then have b: "0 \<le> progress s" "progress s \<le> 100" "timer s \<longrightarrow> step s = processing"
    and d: "is_double (progress s)"
    by (simp_all add: progress_ok_def)
  have t: "\<forall>p\<in>set (tick_trace rs s). progress s \<le> p \<and> p \<le> 100"
    using tick_trace_bounds [OF ok assms(3)] .
  have t': "\<forall>p\<in>set (tick_trace rs s). 0 \<le> p \<and> p \<le> 100"
    using t b(1) by fastforce
  have s: "sorted (tick_trace rs s)"
    using tick_trace_sorted [OF ok assms(3)] .
  have m: "progress s \<le> progress (fire (Tick r) s) \<and> progress (fire (Tick r) s) \<le> 100"
    using tick_progress [OF ok assms(4)] by (simp add: fire_Tick)
  have i: "0 \<le> double_round (r * 18) \<and> double_round (r * 18) \<le> 18"
    using assms(4,5) by (rule increment_bounds)
  have e: "timer s \<longrightarrow>
      progress (fire (Tick r) s) = min 100 (double_round (progress s + double_round (r * 18)))"
    by (auto simp add: fire_Tick tick_def Let_def)
  have u: "double_round (progress s + double_round (r * 18)) \<le> double_round (progress s + 18)"
    using i b(1) by (intro double_round_mono) simp_all
  have "progress s \<le> progress s + 18" by simp
  then have "double_round (progress s) \<le> double_round (progress s + 18)"
    using b(1) by (intro double_round_mono)
  then have u': "progress s \<le> double_round (progress s + 18)"
    using d by (simp add: is_double_def)
  have c: "progress (fire (Tick r) s) \<le> double_round (progress s + 18)"
    using u u' by (auto simp add: fire_Tick tick_def Let_def)
  have n: "is_double r \<longrightarrow> progress (fire (Tick r) s) \<le> progress s + 18"
    using net_increase [OF d b(1,2) _ assms(4,5)]
    by (auto simp add: fire_Tick tick_def Let_def)
  have h: "timeouts (fire (Tick r) s) \<noteq> timeouts s \<longrightarrow> progress (fire (Tick r) s) = 100"
    by (auto simp add: fire_Tick tick_def Let_def min_def split: if_splits)
  from b t' s m i e c n h show ?thesis by blast
qed

theorem progress_ticks_monotone_bounded_witness:
  "list_all valid_event almost_done_run
   \<and> list_all (\<lambda>r. 0 \<le> r \<and> r < 1) [tie_random, 1 / 2]
   \<and> is_double tie_random
   \<and> progress (run almost_done_run initial_state) = 189 / 2
   \<and> tick_trace [tie_random, 1 / 2] (run almost_done_run initial_state) = [189 / 2, 100, 100]
   \<and> sorted (tick_trace [tie_random, 1 / 2] (run almost_done_run initial_state))
   \<and> progress (fire (Tick tie_random) (run almost_done_run initial_state)) = 100
   \<and> timeouts (fire (Tick tie_random) (run almost_done_run initial_state)) = 1"
proof -
  have v: "list_all valid_event almost_done_run"
    by (simp add: almost_done_run_def)
  have r: "\<forall>r\<in>set [tie_random, 1 / 2]. 0 \<le> r \<and> r < 1"
    using tie_random_range by simp
  have f: "fire (Tick (1 / 2))
      ((run almost_done_run initial_state)\<lparr>progress := 100, timer := False, timeouts := 1\<rparr>)
      = (run almost_done_run initial_state)\<lparr>progress := 100, timer := False, timeouts := 1\<rparr>"
    by (simp add: fire_Tick tick_def)
  have p: "progress (run almost_done_run initial_state) = 189 / 2"
    by (simp add: run_almost_done_run)
  show ?thesis
    using progress_ticks_monotone_bounded [OF v refl r, of tie_random] v tie_random_range
      tie_random_double
    by (simp add: tick_rounds_to_100 f p)
qed

subsection \<open>The report\<close>

text \<open>
  C7. Whenever the step is \<open>summary\<close> the report shown is the constant \<open>summaryTemplate\<close>:
  any two states in the summary step show the same report, whatever file and whatever
  scanners each of them holds.
\<close>

theorem report_is_constant:
  "step s1 = summary \<Longrightarrow> step s2 = summary \<Longrightarrow>
   summary_section s1 = Some summaryTemplate \<and> summary_section s1 = summary_section s2"
  by (simp add: summary_section_def summaryData_def)

theorem report_is_constant_witness:
  "step (fire Timeout (run completed_run initial_state)) = summary
   \<and> step (run other_run initial_state) = summary
   \<and> selectedFile (fire Timeout (run completed_run initial_state))
      \<noteq> selectedFile (run other_run initial_state)
   \<and> selectedOptions (fire Timeout (run completed_run initial_state))
      \<noteq> selectedOptions (run other_run initial_state)
   \<and> summary_section (fire Timeout (run completed_run initial_state)) = Some summaryTemplate
   \<and> summary_section (run other_run initial_state) = Some summaryTemplate"
  using report_is_constant
    [of "fire Timeout (run completed_run initial_state)" "run other_run initial_state"]
  by (auto simp add: run_completed_run run_other_run fire_def handler_defs effect_defs)

end
